theory Spec2Isabelle
  imports Main "HOL-Library.Word" "HOL-Library.Multiset"
begin

section \<open>Go library functions called by the repository\<close>

subsection \<open>strconv.ParseUint and strconv.ParseInt\<close>

text \<open>
  The two parsers of Go's \<^verbatim>\<open>strconv\<close> package, as documented: the string is
  read byte by byte, a byte that is no digit of the base is a syntax error, a value
  that does not fit the bit size is a range error. The first problem met, reading from
  the left, is the one reported. With base 0 the base is taken from the prefix:
  \<^verbatim>\<open>0x\<close> is hexadecimal, another leading \<^verbatim>\<open>0\<close> is octal, anything else decimal.
  (Later Go releases add \<^verbatim>\<open>0b\<close>, \<^verbatim>\<open>0o\<close> and underscores for base 0; the repository
  reaches base 0 only with strings of decimal digits, where all releases agree.)
\<close>

datatype NumError = ErrSyntax | ErrRange | ErrBase

definition digit_of_byte :: "char \<Rightarrow> nat option" where
  "digit_of_byte d =
     (let c = (of_char d :: nat) in
      if 48 \<le> c \<and> c \<le> 57 then Some (c - 48)
      else if 97 \<le> c \<and> c \<le> 122 then Some (c - 97 + 10)
      else if 65 \<le> c \<and> c \<le> 90 then Some (c - 65 + 10)
      else None)"

text \<open>
  The digit loop. The source tests \<^verbatim>\<open>n >= cutoff\<close> before the multiplication and
  \<^verbatim>\<open>n1 < n || n1 > maxVal\<close> after the addition, on 64-bit unsigned values; with
  \<open>maxVal \<le> 2 ^ 64 - 1\<close> the two tests together say that \<open>n * base + v\<close>, computed
  without wrap-around, exceeds \<open>maxVal\<close>.
\<close>

fun ParseUint_loop :: "nat \<Rightarrow> nat \<Rightarrow> nat \<Rightarrow> string \<Rightarrow> NumError + nat" where
  "ParseUint_loop base maxVal n [] = Inr n"
| "ParseUint_loop base maxVal n (d # s) =
     (case digit_of_byte d of
        None \<Rightarrow> Inl ErrSyntax
      | Some v \<Rightarrow>
          if base \<le> v then Inl ErrSyntax
          else if maxVal < n * base + v then Inl ErrRange
          else ParseUint_loop base maxVal (n * base + v) s)"

definition ParseUint :: "string \<Rightarrow> nat \<Rightarrow> nat \<Rightarrow> NumError + nat" where
  "ParseUint s base bitSize =
     (let maxVal = 2 ^ bitSize - 1 in
      if s = [] then Inl ErrSyntax
      else if 2 \<le> base \<and> base \<le> 36 then ParseUint_loop base maxVal 0 s
      else if base = 0 then
        (if hd s = CHR ''0'' \<and> 1 < length s \<and> (s ! 1 = CHR ''x'' \<or> s ! 1 = CHR ''X'') then
           (if length s < 3 then Inl ErrSyntax
            else ParseUint_loop 16 maxVal 0 (drop 2 s))
         else if hd s = CHR ''0'' then ParseUint_loop 8 maxVal 0 (tl s)
         else ParseUint_loop 10 maxVal 0 s)
      else Inl ErrBase)"

text \<open>
  \<^verbatim>\<open>ParseInt\<close> strips one sign, parses the rest unsigned with the same bit size and
  checks the signed range. An unsigned range error is a signed range error too (the
  unsigned parser then hands back the largest 64-bit value, which is past both cutoffs).
\<close>

definition ParseInt :: "string \<Rightarrow> nat \<Rightarrow> nat \<Rightarrow> NumError + int" where
  "ParseInt s base bitSize =
     (if s = [] then Inl ErrSyntax
      else
        let neg = (hd s = CHR ''-'');
            s' = (if hd s = CHR ''+'' \<or> hd s = CHR ''-'' then tl s else s);
            cutoff = 2 ^ (bitSize - 1)
        in case ParseUint s' base bitSize of
             Inl ErrRange \<Rightarrow> Inl ErrRange
           | Inl e \<Rightarrow> Inl e
           | Inr un \<Rightarrow>
               if \<not> neg \<and> cutoff \<le> un then Inl ErrRange
               else if neg \<and> cutoff < un then Inl ErrRange
               else Inr (if neg then - int un else int un))"

subsection \<open>fmt.Sprintf with the verb %d\<close>

text \<open>
  The decimal text of an integer: a minus sign for a negative one, then the digits with
  no leading zero. \<^verbatim>\<open>%d\<close> of a 64-bit signed value prints the value the 64 bits
  denote in two's complement.
\<close>

fun decimal_digits :: "nat \<Rightarrow> string" where
  "decimal_digits n =
     (if n < 10 then [char_of (48 + n)]
      else decimal_digits (n div 10) @ [char_of (48 + n mod 10)])"

declare decimal_digits.simps [simp del]

definition show_int :: "int \<Rightarrow> string" where
  "show_int i =
     (if i < 0 then CHR 0x2D # decimal_digits (nat (- i)) else decimal_digits (nat i))"

definition Sprintf_d :: "64 word \<Rightarrow> string" where
  "Sprintf_d v = show_int (sint v)"

section \<open>The byte-size decode hook (common/viperutil/config_util.go)\<close>

subsection \<open>The regular expression\<close>

text \<open>
  The hook compiles \<^verbatim>\<open>^(?P<size>[0-9]+)\s*(?i)(?P<unit>(k|m|g))b?$\<close>. Go's
  \<^verbatim>\<open>regexp\<close> reads the string as UTF-8; \<^verbatim>\<open>\s\<close> is tab, line feed, form feed,
  carriage return or space; \<^verbatim>\<open>$\<close> without the multi-line flag is the end of the
  text only; \<^verbatim>\<open>(?i)\<close> folds case for what follows it, by Unicode simple folding,
  under which \<^verbatim>\<open>k\<close> also matches U+212A (KELVIN SIGN, the bytes E2 84 AA). Strings
  are lists of bytes here, as in Go.
\<close>

definition is_digit :: "char \<Rightarrow> bool" where
  "is_digit c = (48 \<le> (of_char c :: nat) \<and> (of_char c :: nat) \<le> 57)"

definition is_space :: "char \<Rightarrow> bool" where
  "is_space c = ((of_char c :: nat) \<in> {9, 10, 12, 13, 32})"

definition kelvin :: string where
  "kelvin = [CHR 0xE2, CHR 0x84, CHR 0xAA]"

text \<open>The group \<^verbatim>\<open>unit\<close> at the head of a string: the text it matches, and the rest.\<close>

definition match_unit :: "string \<Rightarrow> (string \<times> string) option" where
  "match_unit s =
     (case s of
        [] \<Rightarrow> None
      | c # r \<Rightarrow>
          if c \<in> set ''kmgKMG'' then Some ([c], r)
          else if take 3 s = kelvin then Some (kelvin, drop 3 s)
          else None)"

text \<open>
  The match of the whole expression: \<open>Some (size, unit)\<close>, the texts of the two named
  groups, when the string matches, \<open>None\<close> when it does not. Each part of the
  expression is followed by one that starts with a different byte, so the digits and
  the white space are taken as far as they go. The expression is anchored at both ends:
  \<^verbatim>\<open>MatchString\<close> is \<open>re_match raw \<noteq> None\<close>, and \<^verbatim>\<open>ReplaceAllString\<close> with the
  template \<^verbatim>\<open>${size}\<close> (or \<^verbatim>\<open>${unit}\<close>) replaces the whole string by the group.
\<close>

definition re_match :: "string \<Rightarrow> (string \<times> string) option" where
  "re_match raw =
     (let size_s = takeWhile is_digit raw;
          after_ws = dropWhile is_space (dropWhile is_digit raw)
      in if size_s = [] then None
         else case match_unit after_ws of
                None \<Rightarrow> None
              | Some (u, rest) \<Rightarrow>
                  if rest = [] \<or> rest = ''b'' \<or> rest = ''B'' then Some (size_s, u)
                  else None)"

text \<open>\<^verbatim>\<open>strings.ToLower\<close>, on the strings the group \<^verbatim>\<open>unit\<close> can hold.\<close>

definition ascii_lower :: "char \<Rightarrow> char" where
  "ascii_lower c =
     (if 65 \<le> (of_char c :: nat) \<and> (of_char c :: nat) \<le> 90
      then char_of ((of_char c :: nat) + 32) else c)"

definition ToLower :: "string \<Rightarrow> string" where
  "ToLower s = (if s = kelvin then ''k'' else map ascii_lower s)"

subsection \<open>byteSizeDecodeHook\<close>

text \<open>
  \<^verbatim>\<open>reflect.Kind\<close> (the kinds the hooks of this file test, and one for all others) and
  the values of \<^verbatim>\<open>interface{}\<close> the hook reads or returns.
\<close>

datatype Kind = reflect_String | reflect_Uint32 | reflect_Map | reflect_Slice | reflect_Other

datatype iface = StringV string | Uint64V "64 word" | OtherV

datatype hook_error = OverflowsUint32 string

text \<open>
  What a call of the hook does: it returns a value and an error (or nil), or the type
  assertion \<^verbatim>\<open>data.(string)\<close> panics.
\<close>

datatype hook_outcome = Return iface "hook_error option" | Panic

text \<open>The \<^verbatim>\<open>switch\<close> on the lower-cased unit, with its two \<^verbatim>\<open>fallthrough\<close>s.\<close>

definition shift_by_unit :: "string \<Rightarrow> 64 word \<Rightarrow> 64 word" where
  "shift_by_unit u size0 =
     (if u = ''g'' then push_bit 10 (push_bit 10 (push_bit 10 size0))
      else if u = ''m'' then push_bit 10 (push_bit 10 size0)
      else if u = ''k'' then push_bit 10 size0
      else size0)"

definition MaxUint32 :: "64 word" where
  "MaxUint32 = 0xFFFFFFFF"

definition byteSizeDecodeHook :: "Kind \<Rightarrow> Kind \<Rightarrow> iface \<Rightarrow> hook_outcome" where
  "byteSizeDecodeHook f t data =
     (if f \<noteq> reflect_String \<or> t \<noteq> reflect_Uint32 then Return data None
      else case data of
        StringV raw \<Rightarrow>
          if raw = [] then Return data None
          else (case re_match raw of
                  None \<Rightarrow> Return data None
                | Some (size_s, u) \<Rightarrow>
                    (case ParseUint size_s 0 64 of
                       Inl e \<Rightarrow> Return data None
                     | Inr n \<Rightarrow>
                         let size1 = shift_by_unit (ToLower u) (of_nat n) in
                         if MaxUint32 < size1
                         then Return (Uint64V size1) (Some (OverflowsUint32 raw))
                         else Return (Uint64V size1) None))
      | _ \<Rightarrow> Panic)"

subsection \<open>Notions used to state what the hook computes\<close>

text \<open>
  The value of a string of digits in a base, the texts the group \<^verbatim>\<open>unit\<close> can match,
  and the factor each stands for.
\<close>

definition digits_value :: "nat \<Rightarrow> string \<Rightarrow> nat" where
  "digits_value b ds = foldl (\<lambda>n c. n * b + ((of_char c :: nat) - 48)) 0 ds"

text \<open>
  How a non-empty string of decimal digits is read with base 0: in base 8 after a
  leading \<^verbatim>\<open>0\<close> (then a digit 8 or 9 has no value), in base 10 otherwise.
\<close>

definition size_value :: "string \<Rightarrow> nat option" where
  "size_value ds =
     (if hd ds = CHR ''0'' then
        (if list_all (\<lambda>c. (of_char c :: nat) < 56) (tl ds)
         then Some (digits_value 8 (tl ds)) else None)
      else Some (digits_value 10 ds))"

definition units :: "string set" where
  "units = {''k'', ''K'', kelvin, ''m'', ''M'', ''g'', ''G''}"

definition unit_factor :: "string \<Rightarrow> nat" where
  "unit_factor u =
     (if u \<in> {''k'', ''K'', kelvin} then 2 ^ 10
      else if u \<in> {''m'', ''M''} then 2 ^ 20
      else 2 ^ 30)"

text \<open>The hook on a string that is decoded into a \<^verbatim>\<open>uint32\<close> field.\<close>

abbreviation decode_uint32 :: "string \<Rightarrow> hook_outcome" where
  "decode_uint32 raw \<equiv> byteSizeDecodeHook reflect_String reflect_Uint32 (StringV raw)"

section \<open>The lifecycle system chaincode (core/scc/lccc/lccc.go)\<close>

subsection \<open>Data and errors\<close>

text \<open>
  The error types of the file that the upgrade path can return. \<open>ForeignErr\<close> stands
  for an error made outside the file and passed on unchanged (by the stub, by
  \<^verbatim>\<open>proto.Marshal\<close>, by \<^verbatim>\<open>utils.GetChaincodeDeploymentSpec\<close>) and for the two
  \<^verbatim>\<open>fmt.Errorf\<close> messages of \<^verbatim>\<open>putChaincodeData\<close>.
\<close>

datatype lccc_error =
    InvalidChaincodeNameErr string
  | NotFoundErr string
  | MarshallErr string
  | InvalidDeploymentSpecErr string
  | IdenticalVersionErr string
  | InvalidVersionErr string
  | ForeignErr string

text \<open>\<^verbatim>\<open>ccprovider.ChaincodeData\<close>, as the file builds it.\<close>

record ChaincodeData =
  Name :: string
  Version :: string
  DepSpec :: string
  Policy :: string
  Escc :: string
  Vscc :: string

text \<open>
  Of \<^verbatim>\<open>pb.ChaincodeDeploymentSpec\<close> the file reads
  \<^verbatim>\<open>ChaincodeSpec.ChaincodeId.Name\<close> and \<^verbatim>\<open>ChaincodeSpec.ChaincodeId.Version\<close>.
\<close>

record ChaincodeDeploymentSpec =
  ChaincodeId_Name :: string
  ChaincodeId_Version :: string

subsection \<open>The collaborators\<close>

text \<open>
  The chaincode stub: the ledger under the chaincode's namespace (a key has bytes or
  none), and for each read and write whether it fails. A failed write leaves the ledger
  as it was.
\<close>

record Stub =
  ledger :: "string \<rightharpoonup> string"
  GetState_fails :: "string \<Rightarrow> lccc_error option"
  PutState_fails :: "string \<Rightarrow> string \<Rightarrow> lccc_error option"

definition GetState :: "Stub \<Rightarrow> string \<Rightarrow> lccc_error + string option" where
  "GetState stub key =
     (case GetState_fails stub key of
        Some err \<Rightarrow> Inl err
      | None \<Rightarrow> Inr (ledger stub key))"

definition PutState :: "Stub \<Rightarrow> string \<Rightarrow> string \<Rightarrow> Stub \<times> lccc_error option" where
  "PutState stub key bytes =
     (case PutState_fails stub key bytes of
        Some err \<Rightarrow> (stub, Some err)
      | None \<Rightarrow> (stub\<lparr>ledger := (ledger stub)(key \<mapsto> bytes)\<rparr>, None))"

text \<open>
  The functions of other packages that the upgrade path calls, as parameters:
  \<^verbatim>\<open>sccprovider.IsSysCC\<close>, \<^verbatim>\<open>utils.GetChaincodeDeploymentSpec\<close>, \<^verbatim>\<open>proto.Marshal\<close>
  of a \<^verbatim>\<open>ChaincodeData\<close> (an error, nil bytes or bytes), \<^verbatim>\<open>proto.Unmarshal\<close> into
  a \<^verbatim>\<open>ChaincodeData\<close>, and \<^verbatim>\<open>ccprovider.GetChaincodeFromFS\<close> (the bytes it returns
  and the text of its error, if any).
\<close>

record Env =
  IsSysCC :: "string \<Rightarrow> bool"
  GetChaincodeDeploymentSpec :: "string \<Rightarrow> lccc_error + ChaincodeDeploymentSpec"
  Marshal :: "ChaincodeData \<Rightarrow> lccc_error + string option"
  Unmarshal :: "string \<Rightarrow> ChaincodeData option"
  GetChaincodeFromFS :: "string \<Rightarrow> string \<Rightarrow> string \<times> string option"

subsection \<open>Helper functions\<close>

definition specialChars :: string where
  "specialChars = ''/:[]${}''"

text \<open>
  \<^verbatim>\<open>putChaincodeData\<close> returns the new \<^verbatim>\<open>ChaincodeData\<close> and an error. When
  \<^verbatim>\<open>PutState\<close> fails it returns both; its callers read the data only when the error
  is nil, so the model returns the error alone then.
\<close>

definition putChaincodeData ::
  "Env \<Rightarrow> Stub \<Rightarrow> string \<Rightarrow> string \<Rightarrow> string \<Rightarrow> string \<Rightarrow> string \<Rightarrow> string \<Rightarrow> string
     \<Rightarrow> Stub \<times> (lccc_error + ChaincodeData)" where
  "putChaincodeData env stub chainname ccname version cccode policy escc vscc =
     (if \<not> IsSysCC env escc then
        (stub, Inl (ForeignErr (escc @ '' is not a valid endorsement system chaincode'')))
      else if \<not> IsSysCC env vscc then
        (stub, Inl (ForeignErr (vscc @ '' is not a valid validation system chaincode'')))
      else
        let cd = \<lparr>Name = ccname, Version = version, DepSpec = cccode, Policy = policy,
                  Escc = escc, Vscc = vscc\<rparr>
        in case Marshal env cd of
             Inl err \<Rightarrow> (stub, Inl err)
           | Inr None \<Rightarrow> (stub, Inl (MarshallErr ccname))
           | Inr (Some cdbytes) \<Rightarrow>
               (case PutState stub ccname cdbytes of
                  (stub', Some err) \<Rightarrow> (stub', Inl err)
                | (stub', None) \<Rightarrow> (stub', Inr cd)))"

definition upgradeChaincode ::
  "Env \<Rightarrow> Stub \<Rightarrow> string \<Rightarrow> string \<Rightarrow> string \<Rightarrow> string \<Rightarrow> string \<Rightarrow> string \<Rightarrow> string
     \<Rightarrow> Stub \<times> (lccc_error + ChaincodeData)" where
  "upgradeChaincode env stub chainname ccname version cccode policy escc vscc =
     putChaincodeData env stub chainname ccname version cccode policy escc vscc"

text \<open>
  \<^verbatim>\<open>getChaincode\<close> returns the data, the stored bytes and an error. With \<open>checkFS\<close>
  it can return the data together with an error.
\<close>

definition getChaincode ::
  "Env \<Rightarrow> Stub \<Rightarrow> string \<Rightarrow> bool \<Rightarrow> ChaincodeData option \<times> string option \<times> lccc_error option" where
  "getChaincode env stub ccname checkFS =
     (case GetState stub ccname of
        Inl err \<Rightarrow> (None, None, Some err)
      | Inr None \<Rightarrow> (None, None, Some (NotFoundErr ccname))
      | Inr (Some cdbytes) \<Rightarrow>
          (case Unmarshal env cdbytes of
             None \<Rightarrow> (None, None, Some (MarshallErr ccname))
           | Some cd \<Rightarrow>
               if checkFS then
                 (case GetChaincodeFromFS env ccname (Version cd) of
                    (bytes, Some msg) \<Rightarrow>
                      (Some (cd\<lparr>DepSpec := bytes\<rparr>), None, Some (InvalidDeploymentSpecErr msg))
                  | (bytes, None) \<Rightarrow> (Some (cd\<lparr>DepSpec := bytes\<rparr>), Some cdbytes, None))
               else (Some cd, Some cdbytes, None)))"

definition acl :: "Stub \<Rightarrow> string \<Rightarrow> ChaincodeDeploymentSpec \<Rightarrow> lccc_error option" where
  "acl stub chainname cds = None"

definition isValidChaincodeName :: "string \<Rightarrow> bool" where
  "isValidChaincodeName chaincodename =
     (if chaincodename = [] then False
      else if \<exists>c \<in> set chaincodename. c \<in> set specialChars then False
      else True)"

subsection \<open>The upgrade\<close>

text \<open>
  \<^verbatim>\<open>strconv.ParseInt\<close> returns a 64-bit signed integer, and \<open>v + 1\<close> is computed on
  64 bits.
\<close>

definition getUpgradeVersion :: "ChaincodeData \<Rightarrow> ChaincodeDeploymentSpec \<Rightarrow> lccc_error + string" where
  "getUpgradeVersion cd cds =
     (if Version cd = ChaincodeId_Version cds then
        Inl (IdenticalVersionErr (ChaincodeId_Name cds))
      else if ChaincodeId_Version cds \<noteq> [] then Inr (ChaincodeId_Version cds)
      else
        case ParseInt (Version cd) 10 32 of
          Inl err \<Rightarrow> Inl (InvalidVersionErr (Version cd))
        | Inr v \<Rightarrow> Inr (Sprintf_d ((word_of_int v :: 64 word) + 1)))"

definition executeUpgrade ::
  "Env \<Rightarrow> Stub \<Rightarrow> string \<Rightarrow> string \<Rightarrow> string \<Rightarrow> string \<Rightarrow> string
     \<Rightarrow> Stub \<times> (lccc_error + string)" where
  "executeUpgrade env stub chainName depSpec policy escc vscc =
     (case GetChaincodeDeploymentSpec env depSpec of
        Inl err \<Rightarrow> (stub, Inl err)
      | Inr cds \<Rightarrow>
          (case acl stub chainName cds of
             Some err \<Rightarrow> (stub, Inl err)
           | None \<Rightarrow>
               let chaincodeName = ChaincodeId_Name cds in
               if \<not> isValidChaincodeName chaincodeName then
                 (stub, Inl (InvalidChaincodeNameErr chaincodeName))
               else
                 (case getChaincode env stub chaincodeName True of
                    (None, _, _) \<Rightarrow> (stub, Inl (NotFoundErr chainName))
                  | (Some cd, _, _) \<Rightarrow>
                      (case getUpgradeVersion cd cds of
                         Inl err \<Rightarrow> (stub, Inl err)
                       | Inr ver \<Rightarrow>
                           (case upgradeChaincode env stub chainName chaincodeName ver
                                   depSpec policy escc vscc of
                              (stub', Inl err) \<Rightarrow> (stub', Inl err)
                            | (stub', Inr newCD) \<Rightarrow> (stub', Inr (Version newCD)))))))"

subsection \<open>A concrete peer, for instances of the theorems\<close>

text \<open>
  A ledger that holds the chaincode \<^verbatim>\<open>mycc\<close> at a stored version, and a deployment
  spec for \<^verbatim>\<open>mycc\<close> that supplies a version (possibly the empty one).
\<close>

definition demo_env :: "string \<Rightarrow> string \<Rightarrow> Env" where
  "demo_env stored supplied =
     \<lparr>IsSysCC = (\<lambda>n. n = ''escc'' \<or> n = ''vscc''),
      GetChaincodeDeploymentSpec =
        (\<lambda>b. Inr \<lparr>ChaincodeId_Name = ''mycc'', ChaincodeId_Version = supplied\<rparr>),
      Marshal = (\<lambda>cd. Inr (Some (Name cd @ '':'' @ Version cd))),
      Unmarshal =
        (\<lambda>b. Some \<lparr>Name = ''mycc'', Version = stored, DepSpec = [], Policy = [],
                      Escc = ''escc'', Vscc = ''vscc''\<rparr>),
      GetChaincodeFromFS = (\<lambda>n v. (''code'', None))\<rparr>"

definition demo_stub :: Stub where
  "demo_stub =
     \<lparr>ledger = [''mycc'' \<mapsto> ''old''], GetState_fails = (\<lambda>k. None),
      PutState_fails = (\<lambda>k b. None)\<rparr>"

abbreviation demo_cd :: "string \<Rightarrow> ChaincodeData" where
  "demo_cd stored \<equiv> \<lparr>Name = ''mycc'', Version = stored, DepSpec = ''code'', Policy = [],
      Escc = ''escc'', Vscc = ''vscc''\<rparr>"

abbreviation demo_cds :: "string \<Rightarrow> ChaincodeDeploymentSpec" where
  "demo_cds supplied \<equiv> \<lparr>ChaincodeId_Name = ''mycc'', ChaincodeId_Version = supplied\<rparr>"

abbreviation demo_upgrade :: "string \<Rightarrow> string \<Rightarrow> Stub \<times> (lccc_error + string)" where
  "demo_upgrade stored supplied \<equiv>
     executeUpgrade (demo_env stored supplied) demo_stub ''ch'' ''spec'' ''pol'' ''escc'' ''vscc''"

subsection \<open>Decimal integers\<close>

text \<open>
  The integer a text denotes in decimal: an optional sign, then one or more decimal
  digits. No limit on its size.
\<close>

definition decimal_natural :: "string \<Rightarrow> int option" where
  "decimal_natural ds =
     (if ds \<noteq> [] \<and> list_all is_digit ds then Some (int (digits_value 10 ds)) else None)"

definition decimal_integer :: "string \<Rightarrow> int option" where
  "decimal_integer s =
     (case s of
        [] \<Rightarrow> None
      | c # r \<Rightarrow>
          if c = CHR ''-'' then map_option uminus (decimal_natural r)
          else if c = CHR ''+'' then decimal_natural r
          else decimal_natural s)"

section \<open>The gossip Comm layer: dispatch of inbound messages\<close>

text \<open>
  Of the Comm layer the sources hold the test file only (the second part of
  \<^verbatim>\<open>common/viperutil/config_util.go\<close>); the implementation under test is not among
  them. The data and the Dispatcher below follow the specification; the two selectors
  are those of \<^verbatim>\<open>TestAccept\<close>.
\<close>

subsection \<open>Data\<close>

text \<open>
  Modelled from the spec: the data model of the Comm layer (section 3), whose Go
  declarations are missing from the sources. \<open>ConnectionInfo\<close> is
  \<^verbatim>\<open>{id, identity, auth: {signedData, signature}, authenticated}\<close>; a \<open>GossipMessage\<close> is
  \<^verbatim>\<open>{tag, nonce, content}\<close> with a 64-bit correlation number; a \<open>ReceivedMessage\<close>
  is the message with the \<open>ConnectionInfo\<close> of the connection it arrived on (its
  \<^verbatim>\<open>respond\<close> closure is left out: dispatch does not read it).
\<close>

record ConnectionInfo =
  pkiID :: string
  identity :: string
  signedData :: string
  signature :: string
  authenticated :: bool

datatype Tag = EMPTY | CONN | OTHER

datatype Content =
    ConnectionMessage string string string
  | DataMessage string

record GossipMessage =
  tag :: Tag
  nonce :: "64 word"
  content :: Content

record ReceivedMessage =
  message :: GossipMessage
  connectionInfo :: ConnectionInfo

subsection \<open>The Dispatcher\<close>

text \<open>
  Modelled from the spec: the Dispatcher and the Blacklist of the Comm layer (sections
  4.3 and 4.6), whose implementation is missing from the sources. A subscription is a
  predicate and a buffer; \<open>accept\<close> registers one with an empty buffer. For every
  authenticated, non-blacklisted inbound message the Dispatcher evaluates the predicate
  of every active subscription and enqueues a copy into each matching subscriber's
  buffer; any other message is enqueued nowhere. A full buffer suspends the reader and
  drops nothing, so a buffer here is the sequence of messages enqueued into it, in the
  order of their arrival, whether consumed yet or not.
\<close>

record Subscription =
  predicate :: "ReceivedMessage \<Rightarrow> bool"
  buffer :: "ReceivedMessage list"

record Dispatcher =
  subscriptions :: "Subscription list"
  blacklist :: "string set"

definition accept :: "Dispatcher \<Rightarrow> (ReceivedMessage \<Rightarrow> bool) \<Rightarrow> Dispatcher" where
  "accept d p = d\<lparr>subscriptions := subscriptions d @ [\<lparr>predicate = p, buffer = []\<rparr>]\<rparr>"

definition deliverable :: "Dispatcher \<Rightarrow> ReceivedMessage \<Rightarrow> bool" where
  "deliverable d m =
     (authenticated (connectionInfo m) \<and> pkiID (connectionInfo m) \<notin> blacklist d)"

definition enqueue :: "ReceivedMessage \<Rightarrow> Subscription \<Rightarrow> Subscription" where
  "enqueue m s = (if predicate s m then s\<lparr>buffer := buffer s @ [m]\<rparr> else s)"

definition dispatch :: "Dispatcher \<Rightarrow> ReceivedMessage \<Rightarrow> Dispatcher" where
  "dispatch d m =
     (if deliverable d m then d\<lparr>subscriptions := map (enqueue m) (subscriptions d)\<rparr>
      else d)"

text \<open>The messages of one inbound stream, dispatched in the order received.\<close>

fun dispatch_all :: "Dispatcher \<Rightarrow> ReceivedMessage list \<Rightarrow> Dispatcher" where
  "dispatch_all d [] = d"
| "dispatch_all d (m # ms) = dispatch_all (dispatch d m) ms"

text \<open>What the subscriber of the \<open>i\<close>-th subscription has received.\<close>

definition received :: "Dispatcher \<Rightarrow> nat \<Rightarrow> ReceivedMessage list" where
  "received d i = (if i < length (subscriptions d) then buffer (subscriptions d ! i) else [])"

subsection \<open>The selectors of TestAccept\<close>

definition evenNONCESelector :: "ReceivedMessage \<Rightarrow> bool" where
  "evenNONCESelector m = (nonce (message m) mod 2 = 0)"

definition oddNONCESelector :: "ReceivedMessage \<Rightarrow> bool" where
  "oddNONCESelector m = (nonce (message m) mod 2 \<noteq> 0)"

text \<open>
  A message as \<^verbatim>\<open>createGossipMsg\<close> of the test file builds it (tag \<^verbatim>\<open>EMPTY\<close>, an
  empty data message), with a given correlation number, as received on an authenticated
  connection from a given peer.
\<close>

definition demo_msg :: "string \<Rightarrow> 64 word \<Rightarrow> ReceivedMessage" where
  "demo_msg peer n =
     \<lparr>message = \<lparr>tag = EMPTY, nonce = n, content = DataMessage []\<rparr>,
      connectionInfo = \<lparr>pkiID = peer, identity = peer, signedData = [], signature = [],
                        authenticated = True\<rparr>\<rparr>"

section \<open>Properties of the byte-size decode hook\<close>

lemma foldl_ge: "1 \<le> b \<Longrightarrow> n \<le> foldl (\<lambda>n c. n * b + ((of_char c :: nat) - 48)) n s"
proof (induction s arbitrary: n)
  case Nil
  then show ?case by simp
next
  case (Cons c s)
  have "n \<le> n * b + ((of_char c :: nat) - 48)"
    using Cons.prems by (simp add: trans_le_add1)
  also have "\<dots> \<le> foldl (\<lambda>n c. n * b + ((of_char c :: nat) - 48)) (n * b + ((of_char c :: nat) - 48)) s"
    using Cons.IH [OF Cons.prems] .
  finally show ?case by simp
qed

lemma digit_of_byte_digit: "is_digit c \<Longrightarrow> digit_of_byte c = Some ((of_char c :: nat) - 48)"
  by (simp add: is_digit_def digit_of_byte_def Let_def)

lemma ParseUint_loop_digits:
  assumes "1 \<le> b" and "list_all (\<lambda>c. is_digit c \<and> (of_char c :: nat) - 48 < b) s"
    and "n \<le> maxVal"
  shows "ParseUint_loop b maxVal n s =
           (let v = foldl (\<lambda>n c. n * b + ((of_char c :: nat) - 48)) n s
            in if maxVal < v then Inl ErrRange else Inr v)"
  using assms
proof (induction s arbitrary: n)
  case Nil
  then show ?case by (simp add: Let_def not_less)
next
  case (Cons c s)
  let ?v = "(of_char c :: nat) - 48"
  have d: "digit_of_byte c = Some ?v" and lt: "?v < b" and rest: "list_all (\<lambda>c. is_digit c \<and> (of_char c :: nat) - 48 < b) s"
    using Cons.prems(2) by (simp_all add: digit_of_byte_digit)
  show ?case
  proof (cases "maxVal < n * b + ?v")
    case True
    have "n * b + ?v \<le> foldl (\<lambda>n c. n * b + ((of_char c :: nat) - 48)) (n * b + ?v) s"
      by (rule foldl_ge [OF Cons.prems(1)])
    with True show ?thesis using d lt by (simp add: Let_def)
  next
    case False
    then have "n * b + ?v \<le> maxVal" by simp
    from Cons.IH [OF Cons.prems(1) rest this] False show ?thesis
      using d lt by (simp add: Let_def)
  qed
qed

lemma ParseUint_loop_bad_digit:
  assumes "\<not> list_all (\<lambda>c. (of_char c :: nat) - 48 < b) s" and "list_all is_digit s"
  shows "\<exists>e. ParseUint_loop b maxVal n s = Inl e"
  using assms
proof (induction s arbitrary: n)
  case Nil
  then show ?case by simp
next
  case (Cons c s)
  then show ?case by (auto simp: digit_of_byte_digit)
qed

lemma is_digit_not_x: "is_digit c \<Longrightarrow> c \<noteq> CHR ''x'' \<and> c \<noteq> CHR ''X''"
  by (auto simp: is_digit_def)

lemma is_digit_lt10: "is_digit c \<Longrightarrow> (of_char c :: nat) - 48 < 10"
  by (auto simp: is_digit_def)

lemma ParseUint_digits:
  assumes "ds \<noteq> []" and "list_all is_digit ds"
  shows "ParseUint ds 0 64 = Inr v \<longleftrightarrow> size_value ds = Some v \<and> v < 2 ^ 64"
proof -
  obtain c r where ds: "ds = c # r" using assms(1) by (cases ds) auto
  have dc: "is_digit c" and dr: "list_all is_digit r" using assms(2) ds by simp_all
  have nx: "\<not> (1 < length ds \<and> (ds ! 1 = CHR ''x'' \<or> ds ! 1 = CHR ''X''))"
  proof (cases r)
    case Nil
    then show ?thesis using ds by simp
  next
    case (Cons c' r')
    then have "is_digit c'" using dr by simp
    then show ?thesis using ds Cons is_digit_not_x by auto
  qed
  show ?thesis
  proof (cases "c = CHR ''0''")
    case True
    have pu: "ParseUint ds 0 64 = ParseUint_loop 8 (2 ^ 64 - 1) 0 r"
      using nx True ds by (auto simp: ParseUint_def Let_def)
    show ?thesis
    proof (cases "list_all (\<lambda>c. (of_char c :: nat) < 56) r")
      case ok: True
      have "list_all (\<lambda>c. is_digit c \<and> (of_char c :: nat) - 48 < 8) r"
        using dr ok by (induction r) (auto simp: is_digit_def)
      from ParseUint_loop_digits [OF _ this, where maxVal = "2 ^ 64 - 1" and n = 0]
      have "ParseUint_loop 8 (2 ^ 64 - 1) 0 r =
              (if 2 ^ 64 - 1 < digits_value 8 r then Inl ErrRange else Inr (digits_value 8 r))"
        by (simp add: digits_value_def Let_def)
      then show ?thesis using pu ok True ds by (auto simp: size_value_def)
    next
      case bad: False
      have "\<not> list_all (\<lambda>c. (of_char c :: nat) - 48 < 8) r"
        using bad dr by (induction r) (auto simp: is_digit_def)
      from ParseUint_loop_bad_digit [OF this dr]
      obtain e where "ParseUint_loop 8 (2 ^ 64 - 1) 0 r = Inl e" by blast
      then show ?thesis using pu bad True ds by (simp add: size_value_def)
    qed
  next
    case False
    have pu: "ParseUint ds 0 64 = ParseUint_loop 10 (2 ^ 64 - 1) 0 ds"
      using False ds by (simp add: ParseUint_def Let_def)
    have "list_all (\<lambda>c. is_digit c \<and> (of_char c :: nat) - 48 < 10) ds"
      using assms(2) by (induction ds) (auto simp: is_digit_lt10)
    from ParseUint_loop_digits [OF _ this, where maxVal = "2 ^ 64 - 1" and n = 0]
    have "ParseUint_loop 10 (2 ^ 64 - 1) 0 ds =
            (if 2 ^ 64 - 1 < digits_value 10 ds then Inl ErrRange else Inr (digits_value 10 ds))"
      by (simp add: digits_value_def Let_def)
    then show ?thesis using pu False ds by (auto simp: size_value_def)
  qed
qed


lemma units_head:
  assumes "u \<in> units"
  shows "u \<noteq> []" and "\<not> is_digit (hd u)" and "\<not> is_space (hd u)"
  using assms by (auto simp: units_def kelvin_def is_digit_def is_space_def)

lemma is_space_not_digit: "is_space c \<Longrightarrow> \<not> is_digit c"
  by (auto simp: is_space_def is_digit_def)

lemma match_unit_units:
  assumes "u \<in> units"
  shows "match_unit (u @ bs) = Some (u, bs)"
  using assms by (auto simp: units_def match_unit_def kelvin_def)

lemma match_unit_Some:
  assumes "match_unit s = Some (u, r)"
  shows "s = u @ r \<and> u \<in> units"
proof (cases s)
  case Nil
  then show ?thesis using assms by (simp add: match_unit_def)
next
  case (Cons c t)
  show ?thesis
  proof (cases "c \<in> set ''kmgKMG''")
    case True
    then show ?thesis using assms Cons by (auto simp: match_unit_def units_def)
  next
    case False
    then have "take 3 s = kelvin" and "u = kelvin" and "r = drop 3 s"
      using assms Cons by (auto simp: match_unit_def split: if_splits)
    then show ?thesis using append_take_drop_id [of 3 s] by (simp add: units_def)
  qed
qed

lemma takeWhile_prefix:
  assumes "list_all P xs" and "ys = [] \<or> \<not> P (hd ys)"
  shows "takeWhile P (xs @ ys) = xs" and "dropWhile P (xs @ ys) = ys"
proof -
  have a: "\<And>x. x \<in> set xs \<Longrightarrow> P x" using assms(1) by (simp add: list_all_iff)
  have t: "takeWhile P ys = []" and d: "dropWhile P ys = ys"
    using assms(2) by (cases ys; simp)+
  show "takeWhile P (xs @ ys) = xs" using takeWhile_append2 [of xs P ys] a t by simp
  show "dropWhile P (xs @ ys) = ys" using dropWhile_append2 [of xs P ys] a d by simp
qed

lemma re_match_complete:
  assumes "raw = ds @ ws @ u @ bs" and "ds \<noteq> []" and "list_all is_digit ds"
    and "list_all is_space ws" and "u \<in> units" and "bs \<in> {[], ''b'', ''B''}"
  shows "re_match raw = Some (ds, u)"
proof -
  have hu: "hd (u @ bs) = hd u" using units_head(1) [OF assms(5)] by simp
  have nd: "ws @ u @ bs = [] \<or> \<not> is_digit (hd (ws @ u @ bs))"
  proof (cases ws)
    case Nil
    then show ?thesis using units_head [OF assms(5)] hu by simp
  next
    case (Cons w ws')
    then show ?thesis using assms(4) is_space_not_digit by simp
  qed
  have ns: "u @ bs = [] \<or> \<not> is_space (hd (u @ bs))"
    using units_head [OF assms(5)] hu by simp
  have 1: "takeWhile is_digit raw = ds" and 2: "dropWhile is_digit raw = ws @ u @ bs"
    using takeWhile_prefix [OF assms(3) nd] assms(1) by simp_all
  have 3: "dropWhile is_space (ws @ u @ bs) = u @ bs"
    using takeWhile_prefix(2) [OF assms(4) ns] by simp
  show ?thesis
    using 1 2 3 match_unit_units [OF assms(5), of bs] assms(2,6)
    by (auto simp: re_match_def Let_def)
qed

lemma re_match_sound:
  assumes "re_match raw = Some (ds, u)"
  shows "\<exists>ws bs. raw = ds @ ws @ u @ bs \<and> ds \<noteq> [] \<and> list_all is_digit ds \<and>
           list_all is_space ws \<and> u \<in> units \<and> bs \<in> {[], ''b'', ''B''}"
proof -
  let ?r1 = "dropWhile is_digit raw"
  let ?ws = "takeWhile is_space ?r1"
  let ?r2 = "dropWhile is_space ?r1"
  from assms obtain rest where ds: "ds = takeWhile is_digit raw" and ne: "ds \<noteq> []"
    and mu: "match_unit ?r2 = Some (u, rest)" and bs: "rest \<in> {[], ''b'', ''B''}"
    by (auto simp: re_match_def Let_def split: if_splits option.splits)
  from match_unit_Some [OF mu] have r2: "?r2 = u @ rest" and u: "u \<in> units" by simp_all
  have "raw = ds @ ?r1" using ds by simp
  also have "?r1 = ?ws @ ?r2" by simp
  finally have "raw = ds @ ?ws @ u @ rest" using r2 by simp
  moreover have "list_all is_digit ds" using ds by (simp add: list_all_iff) (meson set_takeWhileD)
  moreover have "list_all is_space ?ws" by (simp add: list_all_iff) (meson set_takeWhileD)
  ultimately show ?thesis using ne u bs by blast
qed


lemma ToLower_units:
  assumes "u \<in> units"
  shows "ToLower u = (if u \<in> {''k'', ''K'', kelvin} then ''k'' else if u \<in> {''m'', ''M''} then ''m'' else ''g'')"
  using assms by (auto simp: units_def ToLower_def kelvin_def ascii_lower_def char_of_eq_iff)

lemma shift_by_unit_units:
  assumes "u \<in> units"
  shows "shift_by_unit (ToLower u) (of_nat v) = (of_nat (v * unit_factor u) :: 64 word)"
  using assms
  by (auto simp: ToLower_units shift_by_unit_def unit_factor_def push_bit_eq_mult units_def kelvin_def)

lemma MaxUint32_less:
  assumes "n < 2 ^ 64"
  shows "MaxUint32 < (of_nat n :: 64 word) \<longleftrightarrow> 2 ^ 32 - 1 < n"
proof -
  have "unat (of_nat n :: 64 word) = n" using assms by (simp add: unat_of_nat take_bit_nat_eq_self)
  moreover have "unat MaxUint32 = 2 ^ 32 - 1" by (simp add: MaxUint32_def)
  ultimately show ?thesis by (simp add: word_less_nat_alt)
qed

lemma hook_matching:
  assumes "raw = ds @ ws @ u @ bs" and "ds \<noteq> []" and "list_all is_digit ds"
    and "list_all is_space ws" and "u \<in> units" and "bs \<in> {[], ''b'', ''B''}"
  shows "decode_uint32 raw =
           (case ParseUint ds 0 64 of
              Inl e \<Rightarrow> Return (StringV raw) None
            | Inr n \<Rightarrow>
                if MaxUint32 < (of_nat (n * unit_factor u) :: 64 word)
                then Return (Uint64V (of_nat (n * unit_factor u))) (Some (OverflowsUint32 raw))
                else Return (Uint64V (of_nat (n * unit_factor u))) None)"
proof -
  have "raw \<noteq> []" using assms(1,2) by simp
  then show ?thesis
    using re_match_complete [OF assms] shift_by_unit_units [OF assms(5)]
    by (simp add: byteSizeDecodeHook_def Let_def split: sum.splits)
qed

lemma hook_not_matching:
  assumes "re_match raw = None"
  shows "decode_uint32 raw = Return (StringV raw) None"
  using assms by (simp add: byteSizeDecodeHook_def)

text \<open>
  Claim C10, as amended. A string that matches the expression (digits \<open>ds\<close>, white space
  \<open>ws\<close>, a unit \<open>u\<close>, an optional \<^verbatim>\<open>b\<close>) has its digits read with base 0: in
  base 10, or in base 8 after a leading \<^verbatim>\<open>0\<close>. When the digits have no value that way,
  or a value of \<open>2 ^ 64\<close> or more, the string is passed through unchanged with no
  error. Otherwise the value times the unit's factor is returned when it is at most
  \<open>2 ^ 32 - 1\<close>, and returned with the overflow error when it is more than that and
  less than \<open>2 ^ 64\<close>. A string that does not match (the empty string included) is
  passed through unchanged with no error.
\<close>

theorem byteSizeDecodeHook_decodes:
  "(raw = ds @ ws @ u @ bs \<and> ds \<noteq> [] \<and> list_all is_digit ds \<and> list_all is_space ws \<and>
      u \<in> units \<and> bs \<in> {[], ''b'', ''B''} \<longrightarrow>
     (case size_value ds of
        None \<Rightarrow> decode_uint32 raw = Return (StringV raw) None
      | Some v \<Rightarrow>
          (2 ^ 64 \<le> v \<longrightarrow> decode_uint32 raw = Return (StringV raw) None) \<and>
          (v * unit_factor u \<le> 2 ^ 32 - 1 \<longrightarrow>
             decode_uint32 raw = Return (Uint64V (of_nat (v * unit_factor u))) None) \<and>
          (2 ^ 32 - 1 < v * unit_factor u \<and> v * unit_factor u < 2 ^ 64 \<longrightarrow>
             decode_uint32 raw = Return (Uint64V (of_nat (v * unit_factor u))) (Some (OverflowsUint32 raw))))) \<and>
   ((\<nexists>ds ws u bs. raw = ds @ ws @ u @ bs \<and> ds \<noteq> [] \<and> list_all is_digit ds \<and>
        list_all is_space ws \<and> u \<in> units \<and> bs \<in> {[], ''b'', ''B''}) \<longrightarrow>
     decode_uint32 raw = Return (StringV raw) None)"
proof (intro conjI impI)
  assume m: "raw = ds @ ws @ u @ bs \<and> ds \<noteq> [] \<and> list_all is_digit ds \<and> list_all is_space ws \<and>
      u \<in> units \<and> bs \<in> {[], ''b'', ''B''}"
  then have h: "decode_uint32 raw =
           (case ParseUint ds 0 64 of
              Inl e \<Rightarrow> Return (StringV raw) None
            | Inr n \<Rightarrow>
                if MaxUint32 < (of_nat (n * unit_factor u) :: 64 word)
                then Return (Uint64V (of_nat (n * unit_factor u))) (Some (OverflowsUint32 raw))
                else Return (Uint64V (of_nat (n * unit_factor u))) None)"
    using hook_matching by blast
  from m have pu: "\<And>v. ParseUint ds 0 64 = Inr v \<longleftrightarrow> size_value ds = Some v \<and> v < 2 ^ 64"
    using ParseUint_digits by blast
  have f1: "1 \<le> unit_factor u" by (simp add: unit_factor_def)
  show "case size_value ds of
        None \<Rightarrow> decode_uint32 raw = Return (StringV raw) None
      | Some v \<Rightarrow>
          (2 ^ 64 \<le> v \<longrightarrow> decode_uint32 raw = Return (StringV raw) None) \<and>
          (v * unit_factor u \<le> 2 ^ 32 - 1 \<longrightarrow>
             decode_uint32 raw = Return (Uint64V (of_nat (v * unit_factor u))) None) \<and>
          (2 ^ 32 - 1 < v * unit_factor u \<and> v * unit_factor u < 2 ^ 64 \<longrightarrow>
             decode_uint32 raw = Return (Uint64V (of_nat (v * unit_factor u))) (Some (OverflowsUint32 raw)))"
  proof (cases "size_value ds")
    case None
    then have "\<And>v. ParseUint ds 0 64 \<noteq> Inr v" using pu by simp
    then show ?thesis using h None by (simp split: sum.splits)
  next
    case (Some v)
    have le: "v \<le> v * unit_factor u" using mult_le_mono2 [OF f1, of v] by simp
    have a: "2 ^ 64 \<le> v \<Longrightarrow> decode_uint32 raw = Return (StringV raw) None"
    proof -
      assume "2 ^ 64 \<le> v"
      then have "\<And>w. ParseUint ds 0 64 \<noteq> Inr w" using pu Some by auto
      then show ?thesis using h by (simp split: sum.splits)
    qed
    have b: "v * unit_factor u < 2 ^ 64 \<Longrightarrow> decode_uint32 raw =
                (if 2 ^ 32 - 1 < v * unit_factor u
                 then Return (Uint64V (of_nat (v * unit_factor u))) (Some (OverflowsUint32 raw))
                 else Return (Uint64V (of_nat (v * unit_factor u))) None)"
    proof -
      assume lt: "v * unit_factor u < 2 ^ 64"
      have "v < 2 ^ 64" using le lt by (rule le_less_trans)
      then have "ParseUint ds 0 64 = Inr v" using pu Some by simp
      then show ?thesis using h MaxUint32_less [OF lt] by simp
    qed
    have c: "v * unit_factor u \<le> 2 ^ 32 - 1 \<Longrightarrow> v * unit_factor u < 2 ^ 64" by simp
    show ?thesis using Some a b c by auto
  qed
next
  assume n: "\<nexists>ds ws u bs. raw = ds @ ws @ u @ bs \<and> ds \<noteq> [] \<and> list_all is_digit ds \<and>
        list_all is_space ws \<and> u \<in> units \<and> bs \<in> {[], ''b'', ''B''}"
  have "re_match raw = None"
  proof (cases "re_match raw")
    case None
    then show ?thesis .
  next
    case (Some p)
    obtain s u where "p = (s, u)" by (cases p)
    with Some re_match_sound [of raw s u] n show ?thesis by blast
  qed
  then show "decode_uint32 raw = Return (StringV raw) None" by (rule hook_not_matching)
qed


lemmas eval_defs = size_value_def digits_value_def is_digit_def is_space_def units_def
  unit_factor_def kelvin_def

theorem byteSizeDecodeHook_decodes_witness:
  "decode_uint32 ''4 kb'' = Return (Uint64V 4096) None \<and>
   decode_uint32 ''4g'' = Return (Uint64V 4294967296) (Some (OverflowsUint32 ''4g'')) \<and>
   decode_uint32 ''08k'' = Return (StringV ''08k'') None \<and>
   decode_uint32 ''18446744073709551616k'' = Return (StringV ''18446744073709551616k'') None \<and>
   decode_uint32 ''12'' = Return (StringV ''12'') None"
proof -
  have 1: "decode_uint32 ''4 kb'' = Return (Uint64V 4096) None"
    using byteSizeDecodeHook_decodes [of "''4 kb''" "''4''" "'' ''" "''k''" "''b''"] by (simp add: eval_defs)
  have 2: "decode_uint32 ''4g'' = Return (Uint64V 4294967296) (Some (OverflowsUint32 ''4g''))"
    using byteSizeDecodeHook_decodes [of "''4g''" "''4''" "[]" "''g''" "[]"] by (simp add: eval_defs)
  have 3: "decode_uint32 ''08k'' = Return (StringV ''08k'') None"
    using byteSizeDecodeHook_decodes [of "''08k''" "''08''" "[]" "''k''" "[]"] by (simp add: eval_defs)
  have 4: "decode_uint32 ''18446744073709551616k'' = Return (StringV ''18446744073709551616k'') None"
    using byteSizeDecodeHook_decodes [of "''18446744073709551616k''" "''18446744073709551616''" "[]" "''k''" "[]"]
    by (simp add: eval_defs)
  have "re_match ''12'' = None"
    by (simp add: re_match_def match_unit_def is_digit_def is_space_def Let_def)
  then have "\<nexists>ds ws u bs. ''12'' = ds @ ws @ u @ bs \<and> ds \<noteq> [] \<and> list_all is_digit ds \<and>
        list_all is_space ws \<and> u \<in> units \<and> bs \<in> {[], ''b'', ''B''}"
    using re_match_complete [of "''12''"] by (metis option.distinct(1))
  then have 5: "decode_uint32 ''12'' = Return (StringV ''12'') None"
    using byteSizeDecodeHook_decodes [of "''12''"] by blast
  show ?thesis using 1 2 3 4 5 by simp
qed

text \<open>
  Claim C10 as stated fails: the digits \<^verbatim>\<open>010\<close> are read in base 8, so \<^verbatim>\<open>010k\<close>
  decodes to \<open>8 * 2 ^ 10\<close> and not to ten times \<open>2 ^ 10\<close>.
\<close>

theorem byteSizeDecodeHook_decimal_counterexample:
  "decode_uint32 ''010k'' = Return (Uint64V 8192) None \<and>
   decode_uint32 ''010k'' \<noteq> Return (Uint64V (of_nat (digits_value 10 ''010'' * 2 ^ 10))) None"
  by (simp add: byteSizeDecodeHook_def re_match_def match_unit_def is_digit_def is_space_def
      ParseUint_def digit_of_byte_def shift_by_unit_def ToLower_def ascii_lower_def kelvin_def
      MaxUint32_def digits_value_def Let_def)

text \<open>
  Beyond the amended claim: the three shifts are computed on 64 bits, so a product of
  \<open>2 ^ 64\<close> or more wraps around before it is compared with the largest 32-bit value.
  Here \<open>2 ^ 54\<close> kilobytes decode to 0 with no error.
\<close>

lemma decode_uint32_wraps:
  "decode_uint32 ''18014398509481984k'' = Return (Uint64V 0) None"
  by (simp add: byteSizeDecodeHook_def re_match_def match_unit_def is_digit_def is_space_def
      ParseUint_def digit_of_byte_def shift_by_unit_def ToLower_def ascii_lower_def kelvin_def
      MaxUint32_def digits_value_def Let_def)

section \<open>Properties of the chaincode upgrade\<close>

lemma sint_incr:
  assumes "- (2 ^ 31) \<le> v" and "v < 2 ^ 31"
  shows "sint ((word_of_int v :: 64 word) + 1) = v + 1"
proof -
  have "(word_of_int v :: 64 word) + 1 = word_of_int (v + 1)" by simp
  moreover have "sint (word_of_int (v + 1) :: 64 word) = signed_take_bit (LENGTH(64) - 1) (v + 1)"
    by (rule sint_sbintrunc')
  moreover have "signed_take_bit (LENGTH(64) - 1) (v + 1) = v + 1"
    by (rule signed_take_bit_int_eq_self) (use assms in simp_all)
  ultimately show ?thesis by (simp only:)
qed

lemma ParseUint_le_maxVal:
  "ParseUint_loop b m n s = Inr v \<Longrightarrow> n \<le> m \<Longrightarrow> v \<le> m"
proof (induction s arbitrary: n)
  case Nil
  then show ?case by simp
next
  case (Cons c s)
  then show ?case by (auto split: option.splits if_splits)
qed

lemma ParseInt_range:
  assumes "ParseInt s 10 32 = Inr v"
  shows "- (2 ^ 31) \<le> v \<and> v < 2 ^ 31"
  using assms
  by (auto simp: ParseInt_def Let_def split: if_splits sum.splits NumError.splits)

lemma getUpgradeVersion_incr:
  assumes "ParseInt (Version cd) 10 32 = Inr v"
  shows "Sprintf_d ((word_of_int v :: 64 word) + 1) = show_int (v + 1)"
  using ParseInt_range [OF assms] by (simp add: Sprintf_d_def sint_incr)


lemma digit_of_byte_lt10:
  "digit_of_byte c = Some d \<Longrightarrow> d < 10 \<Longrightarrow> is_digit c \<and> d = (of_char c :: nat) - 48"
  by (auto simp: digit_of_byte_def is_digit_def Let_def split: if_splits)

lemma ParseUint_loop_Inr_digits:
  "ParseUint_loop 10 m n s = Inr v \<Longrightarrow> list_all is_digit s"
proof (induction s arbitrary: n)
  case Nil
  then show ?case by simp
next
  case (Cons c s)
  then show ?case
    by (auto split: option.splits if_splits dest: digit_of_byte_lt10)
qed

lemma digits_all_lt10:
  "list_all is_digit s \<Longrightarrow> list_all (\<lambda>c. is_digit c \<and> (of_char c :: nat) - 48 < 10) s"
  by (induction s) (auto simp: is_digit_lt10)

lemma ParseUint_base10:
  "ParseUint s 10 32 = Inr n \<longleftrightarrow>
     s \<noteq> [] \<and> list_all is_digit s \<and> n = digits_value 10 s \<and> n < 2 ^ 32"
proof (cases "s \<noteq> [] \<and> list_all is_digit s")
  case True
  then have "list_all (\<lambda>c. is_digit c \<and> (of_char c :: nat) - 48 < 10) s"
    by (simp add: digits_all_lt10)
  from ParseUint_loop_digits [OF _ this, where maxVal = "2 ^ 32 - 1" and n = 0]
  have "ParseUint_loop 10 (2 ^ 32 - 1) 0 s =
          (if 2 ^ 32 - 1 < digits_value 10 s then Inl ErrRange else Inr (digits_value 10 s))"
    by (simp add: digits_value_def Let_def)
  then show ?thesis using True by (auto simp: ParseUint_def Let_def)
next
  case False
  then show ?thesis
    using ParseUint_loop_Inr_digits [of "2 ^ 32 - 1" 0 s n]
    by (auto simp: ParseUint_def Let_def)
qed

text \<open>What \<^verbatim>\<open>ParseInt(s, 10, 32)\<close> accepts, and the integer it returns.\<close>

lemma ParseInt_base10:
  "ParseInt s 10 32 = Inr v \<longleftrightarrow>
     (\<exists>sg ds. s = sg @ ds \<and> sg \<in> {[], ''+'', ''-''} \<and> ds \<noteq> [] \<and> list_all is_digit ds \<and>
        v = (if sg = ''-'' then - int (digits_value 10 ds) else int (digits_value 10 ds)) \<and>
        - (2 ^ 31) \<le> v \<and> v < 2 ^ 31)"
  (is "?L \<longleftrightarrow> ?R")
proof
  assume L: ?L
  then have ne: "s \<noteq> []" by (auto simp: ParseInt_def)
  define sg where "sg = (if hd s = CHR ''+'' then ''+'' else if hd s = CHR ''-'' then ''-'' else [])"
  define ds where "ds = (if hd s = CHR ''+'' \<or> hd s = CHR ''-'' then tl s else s)"
  have s: "s = sg @ ds" using ne by (cases s) (auto simp: sg_def ds_def)
  from L ne obtain un where un: "ParseUint ds 10 32 = Inr un"
    and v: "v = (if hd s = CHR ''-'' then - int un else int un)"
    by (auto simp: ParseInt_def Let_def ds_def split: sum.splits if_splits NumError.splits)
  from un have d: "ds \<noteq> []" "list_all is_digit ds" "un = digits_value 10 ds"
    by (simp_all add: ParseUint_base10)
  have "hd s = CHR ''-'' \<longleftrightarrow> sg = ''-''" by (auto simp: sg_def)
  then have "v = (if sg = ''-'' then - int (digits_value 10 ds) else int (digits_value 10 ds))"
    using v d(3) by simp
  moreover have "sg \<in> {[], ''+'', ''-''}" by (simp add: sg_def)
  ultimately show ?R using s d ParseInt_range [OF L] by blast
next
  assume ?R
  then obtain sg ds where s: "s = sg @ ds" and sg: "sg \<in> {[], ''+'', ''-''}" and ne: "ds \<noteq> []"
    and dg: "list_all is_digit ds"
    and v: "v = (if sg = ''-'' then - int (digits_value 10 ds) else int (digits_value 10 ds))"
    and r: "- (2 ^ 31) \<le> v" "v < 2 ^ 31" by blast
  have hd_ds: "hd ds \<noteq> CHR ''+'' \<and> hd ds \<noteq> CHR ''-''"
    using ne dg by (cases ds) (auto simp: is_digit_def)
  have lt: "digits_value 10 ds < 2 ^ 32" using v r by (auto split: if_splits)
  then have pu: "ParseUint ds 10 32 = Inr (digits_value 10 ds)"
    using ne dg by (simp add: ParseUint_base10)
  show ?L
  proof -
    consider "sg = []" | "sg = ''+''" | "sg = ''-''" using sg by auto
    then show ?thesis
    proof cases
      case 1
      then show ?thesis using s ne hd_ds pu v r by (auto simp: ParseInt_def Let_def)
    next
      case 2
      then show ?thesis using s ne pu v r by (auto simp: ParseInt_def Let_def)
    next
      case 3
      then show ?thesis using s ne pu v r by (auto simp: ParseInt_def Let_def)
    qed
  qed
qed


lemma digits_value_snoc: "digits_value b (ds @ [c]) = digits_value b ds * b + ((of_char c :: nat) - 48)"
  by (simp add: digits_value_def)

lemma digit_char: "d < 10 \<Longrightarrow> is_digit (char_of (48 + d)) \<and> (of_char (char_of (48 + d)) :: nat) - 48 = d"
  by (simp add: is_digit_def)

lemma decimal_digits_props:
  "decimal_digits n \<noteq> [] \<and> list_all is_digit (decimal_digits n) \<and>
   digits_value 10 (decimal_digits n) = n"
proof (induction n rule: decimal_digits.induct)
  case (1 n)
  show ?case
  proof (cases "n < 10")
    case True
    then show ?thesis
      using digit_char [of n] by (simp add: decimal_digits.simps [of n] digits_value_def)
  next
    case False
    have m: "n mod 10 < 10" by simp
    from False 1 have IH: "decimal_digits (n div 10) \<noteq> []"
      "list_all is_digit (decimal_digits (n div 10))"
      "digits_value 10 (decimal_digits (n div 10)) = n div 10" by simp_all
    show ?thesis
      using False IH digit_char [OF m]
      by (simp add: decimal_digits.simps [of n] digits_value_snoc)
  qed
qed

lemma decimal_digits_hd:
  "hd (decimal_digits n) \<noteq> CHR ''-'' \<and> hd (decimal_digits n) \<noteq> CHR ''+''"
  using decimal_digits_props [of n]
  by (cases "decimal_digits n") (auto simp: is_digit_def)

text \<open>Parsing the decimal text of an integer of the 32-bit range gives the integer back.\<close>

lemma ParseInt_show_int:
  assumes "- (2 ^ 31) \<le> v" and "v < 2 ^ 31"
  shows "ParseInt (show_int v) 10 32 = Inr v"
proof (cases "v < 0")
  case True
  let ?ds = "decimal_digits (nat (- v))"
  have "show_int v = ''-'' @ ?ds" using True by (simp add: show_int_def)
  moreover have "v = - int (digits_value 10 ?ds)"
    using True decimal_digits_props [of "nat (- v)"] by simp
  ultimately show ?thesis
    using decimal_digits_props [of "nat (- v)"] assms
    by (subst ParseInt_base10) (intro exI [of _ "''-''"] exI [of _ ?ds], simp)
next
  case False
  let ?ds = "decimal_digits (nat v)"
  have "show_int v = [] @ ?ds" using False by (simp add: show_int_def)
  moreover have "v = int (digits_value 10 ?ds)"
    using False decimal_digits_props [of "nat v"] by simp
  ultimately show ?thesis
    using decimal_digits_props [of "nat v"] assms
    by (subst ParseInt_base10) (intro exI [of _ "[]"] exI [of _ ?ds], simp)
qed

lemma executeUpgrade_existing:
  assumes "GetChaincodeDeploymentSpec env depSpec = Inr cds"
    and "isValidChaincodeName (ChaincodeId_Name cds)"
    and "getChaincode env stub (ChaincodeId_Name cds) True = (Some cd, cdbytes, gerr)"
  shows "executeUpgrade env stub chainName depSpec policy escc vscc =
           (case getUpgradeVersion cd cds of
              Inl err \<Rightarrow> (stub, Inl err)
            | Inr ver \<Rightarrow>
                (case putChaincodeData env stub chainName (ChaincodeId_Name cds) ver
                        depSpec policy escc vscc of
                   (stub', Inl err) \<Rightarrow> (stub', Inl err)
                 | (stub', Inr newCD) \<Rightarrow> (stub', Inr (Version newCD))))"
  using assms
  by (simp add: executeUpgrade_def acl_def upgradeChaincode_def Let_def split: sum.splits)

lemma putChaincodeData_Inr:
  assumes "putChaincodeData env stub chainname ccname version cccode policy escc vscc = (stub', Inr newCD)"
  shows "newCD = \<lparr>Name = ccname, Version = version, DepSpec = cccode, Policy = policy,
                   Escc = escc, Vscc = vscc\<rparr> \<and>
         (\<exists>cdbytes. Marshal env newCD = Inr (Some cdbytes) \<and> ledger stub' ccname = Some cdbytes)"
  using assms
  by (auto simp: putChaincodeData_def PutState_def Let_def
      split: if_splits sum.splits option.splits prod.splits)


text \<open>
  \<^verbatim>\<open>ParseInt(s, 10, 32)\<close> succeeds on the decimal integers of the signed 32-bit range,
  and on nothing else.
\<close>

lemma ParseInt_decimal_integer:
  "ParseInt s 10 32 = Inr v \<longleftrightarrow>
     decimal_integer s = Some v \<and> - (2 ^ 31) \<le> v \<and> v < 2 ^ 31"
  (is "?L \<longleftrightarrow> ?R")
proof
  assume ?L
  then obtain sg ds where s: "s = sg @ ds" and sg: "sg \<in> {[], ''+'', ''-''}" and ne: "ds \<noteq> []"
    and dg: "list_all is_digit ds"
    and v: "v = (if sg = ''-'' then - int (digits_value 10 ds) else int (digits_value 10 ds))"
    and r: "- (2 ^ 31) \<le> v" "v < 2 ^ 31"
    unfolding ParseInt_base10 by blast
  obtain c r' where ds: "ds = c # r'" using ne by (cases ds) auto
  have c: "c \<noteq> CHR ''-''" "c \<noteq> CHR ''+''" using dg ds by (auto simp: is_digit_def)
  have "decimal_integer s = Some v"
    using sg s ne dg v c ds by (auto simp: decimal_integer_def decimal_natural_def)
  then show ?R using r by simp
next
  assume R: ?R
  then obtain c r where s: "s = c # r" by (cases s) (auto simp: decimal_integer_def)
  show ?L
  proof (cases "c = CHR ''-'' \<or> c = CHR ''+''")
    case True
    then have "\<exists>sg ds. s = sg @ ds \<and> sg \<in> {[], ''+'', ''-''} \<and> ds \<noteq> [] \<and> list_all is_digit ds \<and>
        v = (if sg = ''-'' then - int (digits_value 10 ds) else int (digits_value 10 ds)) \<and>
        - (2 ^ 31) \<le> v \<and> v < 2 ^ 31"
      using R s
      by (intro exI [of _ "[c]"] exI [of _ r])
         (auto simp: decimal_integer_def decimal_natural_def split: if_splits)
    then show ?thesis unfolding ParseInt_base10 .
  next
    case False
    then have "\<exists>sg ds. s = sg @ ds \<and> sg \<in> {[], ''+'', ''-''} \<and> ds \<noteq> [] \<and> list_all is_digit ds \<and>
        v = (if sg = ''-'' then - int (digits_value 10 ds) else int (digits_value 10 ds)) \<and>
        - (2 ^ 31) \<le> v \<and> v < 2 ^ 31"
      using R s
      by (intro exI [of _ "[]"] exI [of _ s])
         (auto simp: decimal_integer_def decimal_natural_def split: if_splits)
    then show ?thesis unfolding ParseInt_base10 .
  qed
qed

lemma ParseInt_fails:
  assumes "\<not> (\<exists>v. decimal_integer s = Some v \<and> - (2 ^ 31) \<le> v \<and> v < 2 ^ 31)"
  shows "\<exists>e. ParseInt s 10 32 = Inl e"
proof (cases "ParseInt s 10 32")
  case (Inl e)
  then show ?thesis by blast
next
  case (Inr v)
  then show ?thesis using assms ParseInt_decimal_integer [of s v] by blast
qed


lemma decimal_integer_show_int: "decimal_integer (show_int v) = Some v"
proof (cases "v < 0")
  case True
  then show ?thesis
    using decimal_digits_props [of "nat (- v)"]
    by (simp add: show_int_def decimal_integer_def decimal_natural_def)
next
  case False
  obtain c r where d: "decimal_digits (nat v) = c # r"
    using decimal_digits_props [of "nat v"] by (cases "decimal_digits (nat v)") auto
  have "c \<noteq> CHR ''-''" "c \<noteq> CHR ''+''"
    using decimal_digits_hd [of "nat v"] d by simp_all
  then show ?thesis
    using False d decimal_digits_props [of "nat v"]
    by (simp add: show_int_def decimal_integer_def decimal_natural_def)
qed

text \<open>
  Claim C9, as amended. For an upgrade of an existing chaincode (the deployment spec
  unmarshals, its chaincode name is valid, the ledger holds data \<open>cd\<close> for it): a
  supplied version equal to the stored one makes the upgrade fail with
  \<open>IdenticalVersionErr\<close>; a different, non-empty supplied version is the new version as
  it stands; with an empty supplied version, a stored version that is a decimal integer
  (an optional sign, then decimal digits) of the signed 32-bit range gives, as the new
  version, the decimal text of that integer plus one, and any other stored version (no
  decimal integer, or one below \<open>- 2 ^ 31\<close> or above \<open>2 ^ 31 - 1\<close>) makes the upgrade
  fail with \<open>InvalidVersionErr\<close>. An upgrade that succeeds returns the new version and
  has stored the chaincode data under it.
\<close>

theorem upgrade_version:
  assumes "GetChaincodeDeploymentSpec env depSpec = Inr cds"
    and "isValidChaincodeName (ChaincodeId_Name cds)"
    and "getChaincode env stub (ChaincodeId_Name cds) True = (Some cd, cdbytes, gerr)"
  shows
    "(Version cd = ChaincodeId_Version cds \<longrightarrow>
        executeUpgrade env stub chainName depSpec policy escc vscc =
          (stub, Inl (IdenticalVersionErr (ChaincodeId_Name cds)))) \<and>
     (Version cd \<noteq> ChaincodeId_Version cds \<and> ChaincodeId_Version cds \<noteq> [] \<longrightarrow>
        getUpgradeVersion cd cds = Inr (ChaincodeId_Version cds)) \<and>
     (Version cd \<noteq> ChaincodeId_Version cds \<and> ChaincodeId_Version cds = [] \<longrightarrow>
        (case decimal_integer (Version cd) of
           Some n \<Rightarrow>
             if - (2 ^ 31) \<le> n \<and> n < 2 ^ 31
             then getUpgradeVersion cd cds = Inr (show_int (n + 1)) \<and>
                  decimal_integer (show_int (n + 1)) = Some (n + 1)
             else executeUpgrade env stub chainName depSpec policy escc vscc =
                    (stub, Inl (InvalidVersionErr (Version cd)))
         | None \<Rightarrow>
             executeUpgrade env stub chainName depSpec policy escc vscc =
               (stub, Inl (InvalidVersionErr (Version cd))))) \<and>
     (\<forall>stub' w. executeUpgrade env stub chainName depSpec policy escc vscc = (stub', Inr w) \<longrightarrow>
        getUpgradeVersion cd cds = Inr w \<and>
        (\<exists>bytes. Marshal env \<lparr>Name = ChaincodeId_Name cds, Version = w, DepSpec = depSpec,
                       Policy = policy, Escc = escc, Vscc = vscc\<rparr> = Inr (Some bytes) \<and>
                  ledger stub' (ChaincodeId_Name cds) = Some bytes))"
proof (intro conjI impI allI)
  note ex = executeUpgrade_existing [OF assms, of chainName policy escc vscc]
  show "executeUpgrade env stub chainName depSpec policy escc vscc =
          (stub, Inl (IdenticalVersionErr (ChaincodeId_Name cds)))"
    if "Version cd = ChaincodeId_Version cds"
    using that ex by (simp add: getUpgradeVersion_def)
  show "getUpgradeVersion cd cds = Inr (ChaincodeId_Version cds)"
    if "Version cd \<noteq> ChaincodeId_Version cds \<and> ChaincodeId_Version cds \<noteq> []"
    using that by (simp add: getUpgradeVersion_def)
  show "case decimal_integer (Version cd) of
           Some n \<Rightarrow>
             if - (2 ^ 31) \<le> n \<and> n < 2 ^ 31
             then getUpgradeVersion cd cds = Inr (show_int (n + 1)) \<and>
                  decimal_integer (show_int (n + 1)) = Some (n + 1)
             else executeUpgrade env stub chainName depSpec policy escc vscc =
                    (stub, Inl (InvalidVersionErr (Version cd)))
         | None \<Rightarrow>
             executeUpgrade env stub chainName depSpec policy escc vscc =
               (stub, Inl (InvalidVersionErr (Version cd)))"
    if e: "Version cd \<noteq> ChaincodeId_Version cds \<and> ChaincodeId_Version cds = []"
  proof -
    have fails: "executeUpgrade env stub chainName depSpec policy escc vscc =
                   (stub, Inl (InvalidVersionErr (Version cd)))"
      if "\<not> (\<exists>v. decimal_integer (Version cd) = Some v \<and> - (2 ^ 31) \<le> v \<and> v < 2 ^ 31)"
    proof -
      from ParseInt_fails [OF that] obtain err where "ParseInt (Version cd) 10 32 = Inl err"
        by blast
      then show ?thesis using e ex by (auto simp: getUpgradeVersion_def)
    qed
    show ?thesis
    proof (cases "decimal_integer (Version cd)")
      case None
      then show ?thesis using fails by simp
    next
      case (Some n)
      show ?thesis
      proof (cases "- (2 ^ 31) \<le> n \<and> n < 2 ^ 31")
        case True
        then have p: "ParseInt (Version cd) 10 32 = Inr n"
          using Some by (simp add: ParseInt_decimal_integer)
        then have "getUpgradeVersion cd cds = Inr (show_int (n + 1))"
          using e getUpgradeVersion_incr [OF p] by (auto simp: getUpgradeVersion_def)
        then show ?thesis using Some True decimal_integer_show_int by simp
      next
        case False
        then have "\<not> (\<exists>v. decimal_integer (Version cd) = Some v \<and> - (2 ^ 31) \<le> v \<and> v < 2 ^ 31)"
          using Some by auto
        from fails [OF this] show ?thesis using Some False by auto
      qed
    qed
  qed
  fix stub' w
  assume ok: "executeUpgrade env stub chainName depSpec policy escc vscc = (stub', Inr w)"
  then obtain ver where ver: "getUpgradeVersion cd cds = Inr ver"
    using ex by (cases "getUpgradeVersion cd cds") auto
  from ok ex ver obtain newCD where
    put: "putChaincodeData env stub chainName (ChaincodeId_Name cds) ver depSpec policy escc vscc
            = (stub', Inr newCD)" and w: "w = Version newCD"
    by (auto split: prod.splits sum.splits)
  from putChaincodeData_Inr [OF put] have
    cd': "newCD = \<lparr>Name = ChaincodeId_Name cds, Version = ver, DepSpec = depSpec, Policy = policy,
                   Escc = escc, Vscc = vscc\<rparr>"
    and st: "\<exists>cdbytes. Marshal env newCD = Inr (Some cdbytes) \<and>
               ledger stub' (ChaincodeId_Name cds) = Some cdbytes" by blast+
  from cd' w have "w = ver" by simp
  then show "getUpgradeVersion cd cds = Inr w" using ver by simp
  show "\<exists>bytes. Marshal env \<lparr>Name = ChaincodeId_Name cds, Version = w, DepSpec = depSpec,
                       Policy = policy, Escc = escc, Vscc = vscc\<rparr> = Inr (Some bytes) \<and>
                  ledger stub' (ChaincodeId_Name cds) = Some bytes"
    using st cd' \<open>w = ver\<close> by simp
qed




lemma show_int_42: "show_int 42 = ''42''"
  by (simp add: show_int_def decimal_digits.simps char_of_eq_iff)

lemmas decimal_defs = decimal_integer_def decimal_natural_def is_digit_def digits_value_def

theorem upgrade_version_witness:
  "demo_upgrade ''1'' ''1'' = (demo_stub, Inl (IdenticalVersionErr ''mycc'')) \<and>
   getUpgradeVersion (demo_cd ''1'') (demo_cds ''2.0'') = Inr ''2.0'' \<and>
   getUpgradeVersion (demo_cd ''41'') (demo_cds []) = Inr ''42'' \<and>
   decimal_integer ''42'' = Some 42 \<and>
   demo_upgrade ''v1'' [] = (demo_stub, Inl (InvalidVersionErr ''v1'')) \<and>
   demo_upgrade ''2147483648'' [] = (demo_stub, Inl (InvalidVersionErr ''2147483648'')) \<and>
   snd (demo_upgrade ''41'' []) = Inr ''42'' \<and>
   ledger (fst (demo_upgrade ''41'' [])) ''mycc'' = Some ''mycc:42''"
proof -
  have g: "getChaincode (demo_env st su) demo_stub (ChaincodeId_Name (demo_cds su)) True =
             (Some (demo_cd st), Some ''old'', None)" for st su
    by (simp add: getChaincode_def GetState_def demo_env_def demo_stub_def)
  have d: "GetChaincodeDeploymentSpec (demo_env st su) ''spec'' = Inr (demo_cds su)" for st su
    by (simp add: demo_env_def)
  have n: "isValidChaincodeName (ChaincodeId_Name (demo_cds su))" for su
    by (simp add: isValidChaincodeName_def specialChars_def)
  note T = upgrade_version [OF d n g, of _ _ "''ch''" "''pol''" "''escc''" "''vscc''"]
  have 1: "demo_upgrade ''1'' ''1'' = (demo_stub, Inl (IdenticalVersionErr ''mycc''))"
    using T [of "''1''" "''1''"] by simp
  have 2: "getUpgradeVersion (demo_cd ''1'') (demo_cds ''2.0'') = Inr ''2.0''"
    using T [of "''1''" "''2.0''"] by simp
  have i41: "decimal_integer ''41'' = Some 41"
    by (simp add: decimal_defs)
  have 3: "getUpgradeVersion (demo_cd ''41'') (demo_cds []) = Inr ''42'' \<and>
           decimal_integer ''42'' = Some 42"
    using T [of "''41''" "[]"] i41 show_int_42 by simp
  have iv1: "decimal_integer ''v1'' = None"
    by (simp add: decimal_defs)
  have 4: "demo_upgrade ''v1'' [] = (demo_stub, Inl (InvalidVersionErr ''v1''))"
    using T [of "''v1''" "[]"] iv1 by simp
  have ibig: "decimal_integer ''2147483648'' = Some 2147483648"
    by (simp add: decimal_defs)
  have 5: "demo_upgrade ''2147483648'' [] = (demo_stub, Inl (InvalidVersionErr ''2147483648''))"
    using T [of "''2147483648''" "[]"] ibig by simp
  obtain stub' where e: "demo_upgrade ''41'' [] = (stub', Inr ''42'')"
    using 3 executeUpgrade_existing [OF d n g, of "''41''" "[]" "''ch''" "''pol''" "''escc''" "''vscc''"]
    by (simp add: putChaincodeData_def PutState_def demo_env_def demo_stub_def)
  have 6: "snd (demo_upgrade ''41'' []) = Inr ''42''" using e by simp
  have 7: "ledger (fst (demo_upgrade ''41'' [])) ''mycc'' = Some ''mycc:42''"
    using T [of "''41''" "[]"] e by (simp add: demo_env_def)
  show ?thesis using 1 2 3 4 5 6 7 by simp
qed

text \<open>
  Claim C9 as stated fails: the stored version \<^verbatim>\<open>2147483648\<close> is a decimal integer,
  and with an empty supplied version the upgrade fails with \<open>InvalidVersionErr\<close>
  instead of giving the new version \<^verbatim>\<open>2147483649\<close>.
\<close>

theorem upgrade_version_counterexample:
  "decimal_integer ''2147483648'' = Some 2147483648 \<and>
   getUpgradeVersion (demo_cd ''2147483648'') (demo_cds []) =
     Inl (InvalidVersionErr ''2147483648'') \<and>
   getUpgradeVersion (demo_cd ''2147483648'') (demo_cds []) \<noteq> Inr (show_int (2147483648 + 1)) \<and>
   demo_upgrade ''2147483648'' [] = (demo_stub, Inl (InvalidVersionErr ''2147483648''))"
proof -
  have p: "ParseInt ''2147483648'' 10 32 = Inl ErrRange"
    by (simp add: ParseInt_def ParseUint_def digit_of_byte_def)
  have v: "getUpgradeVersion (demo_cd ''2147483648'') (demo_cds []) =
             Inl (InvalidVersionErr ''2147483648'')"
    using p by (simp add: getUpgradeVersion_def)
  have g: "getChaincode (demo_env ''2147483648'' []) demo_stub (ChaincodeId_Name (demo_cds [])) True =
             (Some (demo_cd ''2147483648''), Some ''old'', None)"
    by (simp add: getChaincode_def GetState_def demo_env_def demo_stub_def)
  have d: "GetChaincodeDeploymentSpec (demo_env ''2147483648'' []) ''spec'' = Inr (demo_cds [])"
    by (simp add: demo_env_def)
  have n: "isValidChaincodeName (ChaincodeId_Name (demo_cds []))"
    by (simp add: isValidChaincodeName_def specialChars_def)
  have u: "demo_upgrade ''2147483648'' [] = (demo_stub, Inl (InvalidVersionErr ''2147483648''))"
    using executeUpgrade_existing [OF d n g, of "''ch''" "''pol''" "''escc''" "''vscc''"] v by simp
  have i: "decimal_integer ''2147483648'' = Some 2147483648"
    by (simp add: decimal_defs)
  show ?thesis using i v u by simp
qed

section \<open>Properties of the dispatch\<close>

lemma dispatch_blacklist [simp]: "blacklist (dispatch d m) = blacklist d"
  by (simp add: dispatch_def)

lemma dispatch_all_blacklist [simp]: "blacklist (dispatch_all d ms) = blacklist d"
  by (induction ms arbitrary: d) simp_all

lemma deliverable_cong: "blacklist d' = blacklist d \<Longrightarrow> deliverable d' = deliverable d"
  by (auto simp: deliverable_def fun_eq_iff)

lemma enqueue_predicate [simp]: "predicate (enqueue m s) = predicate s"
  by (simp add: enqueue_def)

lemma dispatch_subscriptions:
  "subscriptions (dispatch d m) =
     map (\<lambda>s. s\<lparr>buffer := buffer s @ filter (predicate s) (filter (deliverable d) [m])\<rparr>)
       (subscriptions d)"
  by (simp add: dispatch_def enqueue_def map_idI)

lemma dispatch_all_subscriptions:
  "subscriptions (dispatch_all d ms) =
     map (\<lambda>s. s\<lparr>buffer := buffer s @ filter (predicate s) (filter (deliverable d) ms)\<rparr>)
       (subscriptions d)"
proof (induction ms arbitrary: d)
  case Nil
  then show ?case by (simp add: map_idI)
next
  case (Cons m ms)
  have "deliverable (dispatch d m) = deliverable d"
    by (rule deliverable_cong) simp
  then show ?case
    by (simp add: Cons.IH dispatch_subscriptions comp_def)
qed

lemma received_two:
  "received (dispatch_all (accept (accept d0 p1) p2) ms) (length (subscriptions d0)) =
     filter p1 (filter (deliverable d0) ms)"
  "received (dispatch_all (accept (accept d0 p1) p2) ms) (Suc (length (subscriptions d0))) =
     filter p2 (filter (deliverable d0) ms)"
proof -
  have "deliverable (accept (accept d0 p1) p2) = deliverable d0"
    by (rule deliverable_cong) (simp add: accept_def)
  then show
    "received (dispatch_all (accept (accept d0 p1) p2) ms) (length (subscriptions d0)) =
       filter p1 (filter (deliverable d0) ms)"
    "received (dispatch_all (accept (accept d0 p1) p2) ms) (Suc (length (subscriptions d0))) =
       filter p2 (filter (deliverable d0) ms)"
    by (simp_all add: received_def dispatch_all_subscriptions accept_def nth_append)
qed


lemma filter_complement_mset:
  assumes "\<forall>m. p1 m \<noteq> p2 m"
  shows "mset (filter p1 xs) + mset (filter p2 xs) = mset xs"
proof -
  have "p2 = (\<lambda>m. \<not> p1 m)" using assms by auto
  then show ?thesis by simp
qed

text \<open>
  Claim C6. Two subscriptions are registered with complementary predicates (every
  message satisfies exactly one of them) and a stream of inbound messages is dispatched.
  Then every authenticated, non-blacklisted message of the stream is in the buffer of
  the subscription whose predicate it satisfies and not in the other; the two buffers
  share no message; and their multiset union is the multiset of the authenticated,
  non-blacklisted messages sent: a partition with no overlap and no loss. Each buffer
  holds its messages in the order of the stream.
\<close>

theorem accept_partition:
  assumes "\<forall>m. p1 m \<noteq> p2 m"
  shows
    "let d = dispatch_all (accept (accept d0 p1) p2) ms;
         r1 = received d (length (subscriptions d0));
         r2 = received d (Suc (length (subscriptions d0)));
         sent = filter (deliverable d0) ms
     in (\<forall>m \<in> set sent. (m \<in> set r1) = p1 m \<and> (m \<in> set r2) = p2 m) \<and>
        set r1 \<inter> set r2 = {} \<and>
        mset r1 + mset r2 = mset sent \<and>
        r1 = filter p1 sent \<and> r2 = filter p2 sent"
proof -
  have "set (filter p1 (filter (deliverable d0) ms)) \<inter> set (filter p2 (filter (deliverable d0) ms)) = {}"
    using assms by auto
  then show ?thesis
    using filter_complement_mset [OF assms, of "filter (deliverable d0) ms"]
    by (simp add: Let_def received_two)
qed

text \<open>
  The selectors of \<^verbatim>\<open>TestAccept\<close> on four messages of one peer, with a message of a
  blacklisted peer among them.
\<close>

theorem accept_partition_witness:
  "(let d = dispatch_all
              (accept (accept \<lparr>subscriptions = [], blacklist = {''localhost:7613''}\<rparr>
                 evenNONCESelector) oddNONCESelector)
              [demo_msg ''localhost:7612'' 1, demo_msg ''localhost:7612'' 2,
               demo_msg ''localhost:7613'' 6, demo_msg ''localhost:7612'' 3,
               demo_msg ''localhost:7612'' 4]
    in received d 0 = [demo_msg ''localhost:7612'' 2, demo_msg ''localhost:7612'' 4] \<and>
       received d (Suc 0) = [demo_msg ''localhost:7612'' 1, demo_msg ''localhost:7612'' 3] \<and>
       mset (received d 0) + mset (received d (Suc 0)) =
         mset [demo_msg ''localhost:7612'' 1, demo_msg ''localhost:7612'' 2,
               demo_msg ''localhost:7612'' 3, demo_msg ''localhost:7612'' 4])"
proof -
  let ?init = "\<lparr>subscriptions = [], blacklist = {''localhost:7613''}\<rparr>"
  let ?stream = "[demo_msg ''localhost:7612'' 1, demo_msg ''localhost:7612'' 2,
              demo_msg ''localhost:7613'' 6, demo_msg ''localhost:7612'' 3,
              demo_msg ''localhost:7612'' 4]"
  have c: "\<forall>m. evenNONCESelector m \<noteq> oddNONCESelector m"
    by (simp add: evenNONCESelector_def oddNONCESelector_def)
  have l: "length (subscriptions ?init) = 0"
    by simp
  have sent: "filter (deliverable ?init) ?stream =
                [demo_msg ''localhost:7612'' 1, demo_msg ''localhost:7612'' 2,
                 demo_msg ''localhost:7612'' 3, demo_msg ''localhost:7612'' 4]"
    by (simp add: deliverable_def demo_msg_def)
  have ev: "filter evenNONCESelector
              [demo_msg ''localhost:7612'' 1, demo_msg ''localhost:7612'' 2,
               demo_msg ''localhost:7612'' 3, demo_msg ''localhost:7612'' 4] =
            [demo_msg ''localhost:7612'' 2, demo_msg ''localhost:7612'' 4]"
    by (simp add: evenNONCESelector_def demo_msg_def)
  have od: "filter oddNONCESelector
              [demo_msg ''localhost:7612'' 1, demo_msg ''localhost:7612'' 2,
               demo_msg ''localhost:7612'' 3, demo_msg ''localhost:7612'' 4] =
            [demo_msg ''localhost:7612'' 1, demo_msg ''localhost:7612'' 3]"
    by (simp add: oddNONCESelector_def demo_msg_def)
  note T = accept_partition [OF c, of ?init ?stream, unfolded Let_def l sent ev od]
  note r0 = T [THEN conjunct2, THEN conjunct2, THEN conjunct2, THEN conjunct1]
  note r1 = T [THEN conjunct2, THEN conjunct2, THEN conjunct2, THEN conjunct2]
  note su = T [THEN conjunct2, THEN conjunct2, THEN conjunct1]
  show ?thesis
    unfolding Let_def by (intro conjI r0 r1 su)
qed

end
